theory Spec2Isabelle
  imports Main
begin

section \<open>The scorer of \<open>logic.cpp\<close>\<close>

text \<open>
  \<open>logic.cpp\<close> holds one global constant, \<open>REVERSE_FLAGS\<close>, the function
  \<open>hitung_skor\<close> and \<open>main\<close>. The C++ \<open>int\<close> values are modelled as \<open>int\<close>: inside
  \<open>hitung_skor\<close> an element is added to \<open>total\<close> only after the test \<open>v < 0 || v > 3\<close> has
  let it through, and no more than \<open>REVERSE_FLAGS.size()\<close> elements are added before the
  function returns or reads \<open>REVERSE_FLAGS\<close> out of range, so \<open>total\<close> stays within
  \<open>0 .. 30\<close> and 32-bit arithmetic never wraps (lemma \<open>hitung_skor_loop_result\<close>).
\<close>

subsection \<open>\<open>REVERSE_FLAGS\<close> (lines 10-13)\<close>

definition REVERSE_FLAGS :: "bool list" where
  "REVERSE_FLAGS =
     [False, False, False, False, True,
      False, False, False, True, False]"

subsection \<open>\<open>hitung_skor\<close> (lines 16-32)\<close>

text \<open>
  \<open>REVERSE_FLAGS[i]\<close> is \<open>std::vector<bool>::operator[]\<close>, which checks nothing: with
  \<open>i \<ge> REVERSE_FLAGS.size()\<close> the behaviour of the program is undefined. The model makes
  that read a value of its own, \<open>OutOfBounds i\<close>, instead of HOL's unspecified
  \<open>REVERSE_FLAGS ! i\<close>.
\<close>

datatype fault = OutOfBounds nat

text \<open>
  The \<open>for\<close> loop of \<open>hitung_skor\<close>, with the loop variable \<open>i\<close> and the local \<open>total\<close>
  as arguments (\<open>total'\<close>, since \<open>total\<close> is a constant of HOL). \<open>Inr r\<close> is
  \<open>return r\<close>.
\<close>

function hitung_skor_loop :: "int list \<Rightarrow> nat \<Rightarrow> int \<Rightarrow> fault + int" where
  "hitung_skor_loop jawaban i total' =
     (if i < length jawaban then
        (let v = jawaban ! i in
         if v < 0 \<or> v > 3 then Inr (- 1)
         else if i < length REVERSE_FLAGS then
           (let score = (if REVERSE_FLAGS ! i then 3 - v else v)
            in hitung_skor_loop jawaban (i + 1) (total' + score))
         else Inl (OutOfBounds i))
      else Inr total')"
  by pat_completeness auto
termination
  by (relation "measure (\<lambda>(jawaban, i, total'). length jawaban - i)") auto

declare hitung_skor_loop.simps [simp del]

definition hitung_skor :: "int list \<Rightarrow> fault + int" where
  "hitung_skor jawaban = hitung_skor_loop jawaban 0 0"

text \<open>
  The indices at which a run of \<open>hitung_skor\<close> evaluates \<open>REVERSE_FLAGS[i]\<close> (line 28), in
  the order of the reads. A read out of range is the last one recorded.
\<close>

function hitung_skor_reads_loop :: "int list \<Rightarrow> nat \<Rightarrow> nat list" where
  "hitung_skor_reads_loop jawaban i =
     (if i < length jawaban then
        (let v = jawaban ! i in
         if v < 0 \<or> v > 3 then []
         else if i < length REVERSE_FLAGS then i # hitung_skor_reads_loop jawaban (i + 1)
         else [i])
      else [])"
  by pat_completeness auto
termination
  by (relation "measure (\<lambda>(jawaban, i). length jawaban - i)") auto

declare hitung_skor_reads_loop.simps [simp del]

definition hitung_skor_reads :: "int list \<Rightarrow> nat list" where
  "hitung_skor_reads jawaban = hitung_skor_reads_loop jawaban 0"

subsection \<open>The specification's scoring rule\<close>

text \<open>
  The specification's words: \<open>contribution(i) = 3 - v_i\<close> if \<open>i\<close> is 4 or 8 (0-based) and
  \<open>v_i\<close> otherwise. This definition follows the specification, not the source; the
  theorems compare it with \<open>hitung_skor\<close>.
\<close>

definition spec_contribution :: "int list \<Rightarrow> nat \<Rightarrow> int" where
  "spec_contribution v i = (if i = 4 \<or> i = 8 then 3 - v ! i else v ! i)"

subsection \<open>\<open>hitung_skor\<close> in the state of the program\<close>

text \<open>
  The objects with static storage duration that \<open>logic.cpp\<close> names are the global
  \<open>REVERSE_FLAGS\<close> and the streams \<open>cout\<close> and \<open>cerr\<close>; a \<open>world\<close> holds the table and
  what has been written to each stream so far. \<open>hitung_skor_in\<close> is a call of \<open>hitung_skor\<close>
  in a world: it reads the table where line 28 does, from the world it runs in, and gives
  back the returned value together with the world it leaves. The vector is the parameter
  \<open>jawaban\<close>, a reference to \<open>const\<close>.
\<close>

record world =
  reverse_flags :: "bool list"
  cout :: string
  cerr :: string

function hitung_skor_in_loop :: "int list \<Rightarrow> nat \<Rightarrow> int \<Rightarrow> world \<Rightarrow> (fault + int) \<times> world" where
  "hitung_skor_in_loop jawaban i total' w =
     (if i < length jawaban then
        (let v = jawaban ! i in
         if v < 0 \<or> v > 3 then (Inr (- 1), w)
         else if i < length (reverse_flags w) then
           (let score = (if reverse_flags w ! i then 3 - v else v)
            in hitung_skor_in_loop jawaban (i + 1) (total' + score) w)
         else (Inl (OutOfBounds i), w))
      else (Inr total', w))"
  by pat_completeness auto
termination
  by (relation "measure (\<lambda>(jawaban, i, total', w). length jawaban - i)") auto

declare hitung_skor_in_loop.simps [simp del]

definition hitung_skor_in :: "int list \<Rightarrow> world \<Rightarrow> (fault + int) \<times> world" where
  "hitung_skor_in jawaban w = hitung_skor_in_loop jawaban 0 0 w"

subsection \<open>The specification's integer arguments\<close>

text \<open>
  The specification's words: each argument is \<open>a base-10 textual integer\<close>, and a
  \<open>ParseError\<close> is an \<open>argument not an integer literal\<close>. An integer literal is read here
  as one optional sign followed by one or more decimal digits and nothing else. This
  definition follows the specification, not the source.
\<close>

definition spec_integer_literal :: "string \<Rightarrow> bool" where
  "spec_integer_literal s \<longleftrightarrow>
     (case s of
        [] \<Rightarrow> False
      | c # cs \<Rightarrow>
          if c = CHR ''-'' \<or> c = CHR ''+''
          then cs \<noteq> [] \<and> list_all (\<lambda>d. (48::nat) \<le> of_char d \<and> of_char d \<le> (57::nat)) cs
          else list_all (\<lambda>d. (48::nat) \<le> of_char d \<and> of_char d \<le> (57::nat)) s)"

section \<open>\<open>main\<close> (lines 34-67)\<close>

subsection \<open>The library functions \<open>main\<close> calls\<close>

text \<open>
  \<open>std::stoi(str)\<close> with its default base 10, as the C++ standard defines it through
  \<open>strtol\<close>: leading white space (\<open>isspace\<close> in the C locale) is skipped, one sign may
  follow, then the longest run of decimal digits is read, and whatever comes after the
  digits is ignored. It throws \<open>std::invalid_argument\<close> when there is no digit to read and
  \<open>std::out_of_range\<close> when the number is not a value of the 32-bit \<open>int\<close>.
\<close>

datatype stoi_error = invalid_argument | out_of_range

definition isspace :: "char \<Rightarrow> bool" where
  "isspace c \<longleftrightarrow>
     c = CHR '' '' \<or> c = CHR 0x09 \<or> c = CHR 0x0A \<or> c = CHR 0x0B \<or> c = CHR 0x0C \<or> c = CHR 0x0D"

definition isdigit :: "char \<Rightarrow> bool" where
  "isdigit c \<longleftrightarrow> (48::nat) \<le> of_char c \<and> of_char c \<le> (57::nat)"

definition digits_value :: "string \<Rightarrow> nat" where
  "digits_value ds = foldl (\<lambda>acc c. 10 * acc + (of_char c - 48)) 0 ds"

definition stoi :: "string \<Rightarrow> stoi_error + int" where
  "stoi str =
     (let s = dropWhile isspace str;
          negative = (case s of [] \<Rightarrow> False | c # _ \<Rightarrow> c = CHR ''-'');
          s' = (case s of [] \<Rightarrow> [] | c # cs \<Rightarrow> if c = CHR ''-'' \<or> c = CHR ''+'' then cs else s);
          ds = takeWhile isdigit s'
      in if ds = [] then Inl invalid_argument
         else (let n = int (digits_value ds);
                   val = (if negative then - n else n)
               in if val < - (2 ^ 31) \<or> 2 ^ 31 - 1 < val then Inl out_of_range
                  else Inr val))"

text \<open>
  The characters \<open>operator<<\<close> writes for an \<open>int\<close>: its decimal digits, after a \<open>-\<close>
  when it is negative. \<open>endl\<close> writes a line feed.
\<close>

fun show_nat :: "nat \<Rightarrow> string" where
  "show_nat n =
     (if n < 10 then [''0123456789'' ! n]
      else show_nat (n div 10) @ [''0123456789'' ! (n mod 10)])"

declare show_nat.simps [simp del]

definition show_int :: "int \<Rightarrow> string" where
  "show_int k = (if k < 0 then CHR ''-'' # show_nat (nat (- k)) else show_nat (nat k))"

definition endl :: string where
  "endl = [CHR 0x0A]"

subsection \<open>What a run of the program leaves behind\<close>

record outcome =
  stdout :: string
  stderr :: string
  exit_code :: int

subsection \<open>The argument loop (lines 41-50)\<close>

text \<open>
  \<open>for (int i = 1; i < argc; ++i)\<close> with its \<open>try\<close>/\<open>catch\<close>: \<open>Inl\<close> is the \<open>return 1\<close> of
  the handler, with what it wrote, and \<open>Inr\<close> is the vector \<open>jawaban\<close> when the loop ends.
  \<open>argv\<close> is the whole argument vector, program name included, and \<open>argc\<close> its length.
\<close>

function load_args :: "string list \<Rightarrow> nat \<Rightarrow> int list \<Rightarrow> outcome + int list" where
  "load_args argv i jawaban =
     (if i < length argv then
        (case stoi (argv ! i) of
           Inl e \<Rightarrow>
             Inl \<lparr>stdout = [],
                  stderr = ''C++ ERROR: Argumen ke-'' @ show_int (int i) @ '' ('' @ argv ! i
                    @ '') bukan angka valid.'' @ endl,
                  exit_code = 1\<rparr>
         | Inr n \<Rightarrow> load_args argv (i + 1) (jawaban @ [n]))
      else Inr jawaban)"
  by pat_completeness auto
termination
  by (relation "measure (\<lambda>(argv, i, jawaban). length argv - i)") auto

declare load_args.simps [simp del]

subsection \<open>The second scan (lines 55-60)\<close>

text \<open>
  \<open>for (int v : jawaban)\<close>: the first element with \<open>v < 0 || v > 3\<close>, or \<open>None\<close> when the
  loop falls through to line 61.
\<close>

fun rescan :: "int list \<Rightarrow> int option" where
  "rescan [] = None"
| "rescan (v # vs) = (if v < 0 \<or> v > 3 then Some v else rescan vs)"

subsection \<open>\<open>main\<close>\<close>

definition main :: "string list \<Rightarrow> fault + outcome" where
  "main argv =
     (let argc = int (length argv) in
      if argc \<noteq> 11 then
        Inr \<lparr>stdout = [],
             stderr = ''C++ ERROR: Harus menerima 10 jawaban sebagai argumen, diterima: ''
               @ show_int (argc - 1) @ ''.'' @ endl,
             exit_code = 1\<rparr>
      else
        (case load_args argv 1 [] of
           Inl failed \<Rightarrow> Inr failed
         | Inr jawaban \<Rightarrow>
             (case hitung_skor jawaban of
                Inl f \<Rightarrow> Inl f
              | Inr total_skor \<Rightarrow>
                  if total_skor = - 1 then
                    (case rescan jawaban of
                       Some v \<Rightarrow>
                         Inr \<lparr>stdout = [],
                              stderr = ''C++ ERROR: Nilai jawaban di luar rentang 0-3 terdeteksi: ''
                                @ show_int v @ ''.'' @ endl,
                              exit_code = 1\<rparr>
                     | None \<Rightarrow>
                         Inr \<lparr>stdout = [],
                              stderr = ''C++ ERROR: Kesalahan input tidak terduga dalam hitung_skor.''
                                @ endl,
                              exit_code = 1\<rparr>)
                  else
                    Inr \<lparr>stdout = show_int total_skor @ endl, stderr = [], exit_code = 0\<rparr>)))"

section \<open>Properties of the scorer\<close>

lemma length_REVERSE_FLAGS: "length REVERSE_FLAGS = 10"
  by (simp add: REVERSE_FLAGS_def)

lemma REVERSE_FLAGS_nth: "i < 10 \<Longrightarrow> REVERSE_FLAGS ! i \<longleftrightarrow> i = 4 \<or> i = 8"
proof -
  assume "i < 10"
  then have "i \<in> {0, 1, 2, 3, 4, 5, 6, 7, 8, 9}" by auto
  then show ?thesis by (auto simp: REVERSE_FLAGS_def)
qed

subsection \<open>The loop\<close>

lemma hitung_skor_loop_valid:
  assumes "length jawaban \<le> length REVERSE_FLAGS"
    and "\<forall>k. i \<le> k \<and> k < length jawaban \<longrightarrow> 0 \<le> jawaban ! k \<and> jawaban ! k \<le> 3"
  shows "hitung_skor_loop jawaban i t =
    Inr (t + (\<Sum>k = i..<length jawaban. if REVERSE_FLAGS ! k then 3 - jawaban ! k else jawaban ! k))"
  using assms
proof (induction jawaban i t rule: hitung_skor_loop.induct)
  case (1 jawaban i t)
  show ?case
  proof (cases "i < length jawaban")
    case False
    then show ?thesis by (simp add: hitung_skor_loop.simps [of jawaban i t])
  next
    case True
    with "1.prems" have ok: "\<not> (jawaban ! i < 0 \<or> jawaban ! i > 3)" and fl: "i < length REVERSE_FLAGS"
      by force+
    have rest: "\<forall>k. i + 1 \<le> k \<and> k < length jawaban \<longrightarrow> 0 \<le> jawaban ! k \<and> jawaban ! k \<le> 3"
      using "1.prems"(2) by simp
    have "hitung_skor_loop jawaban i t =
        hitung_skor_loop jawaban (i + 1) (t + (if REVERSE_FLAGS ! i then 3 - jawaban ! i else jawaban ! i))"
      using True ok fl by (simp add: hitung_skor_loop.simps [of jawaban i t] Let_def)
    also have "\<dots> = Inr (t + (if REVERSE_FLAGS ! i then 3 - jawaban ! i else jawaban ! i)
        + (\<Sum>k = i + 1..<length jawaban. if REVERSE_FLAGS ! k then 3 - jawaban ! k else jawaban ! k))"
      using "1.IH" [OF True refl ok fl refl "1.prems"(1) rest] by simp
    also have "\<dots> = Inr (t + (\<Sum>k = i..<length jawaban. if REVERSE_FLAGS ! k then 3 - jawaban ! k else jawaban ! k))"
      using True by (simp add: sum.atLeast_Suc_lessThan)
    finally show ?thesis .
  qed
qed

lemma hitung_skor_loop_reject:
  assumes "k < length jawaban" and "jawaban ! k < 0 \<or> jawaban ! k > 3"
    and "i \<le> k" and "k \<le> length REVERSE_FLAGS"
    and "\<forall>j. i \<le> j \<and> j < k \<longrightarrow> 0 \<le> jawaban ! j \<and> jawaban ! j \<le> 3"
  shows "hitung_skor_loop jawaban i t = Inr (- 1)"
  using assms
proof (induction jawaban i t rule: hitung_skor_loop.induct)
  case (1 jawaban i t)
  from "1.prems" have il: "i < length jawaban" by simp
  show ?case
  proof (cases "i = k")
    case True
    from "1.prems"(1,2) have "hitung_skor_loop jawaban k t = Inr (- 1)"
      by (simp add: hitung_skor_loop.simps [of jawaban k t])
    with True show ?thesis by simp
  next
    case False
    with "1.prems" have lt: "i < k" by simp
    with "1.prems" have ok: "\<not> (jawaban ! i < 0 \<or> jawaban ! i > 3)" and fl: "i < length REVERSE_FLAGS"
      by force+
    have rest: "\<forall>j. i + 1 \<le> j \<and> j < k \<longrightarrow> 0 \<le> jawaban ! j \<and> jawaban ! j \<le> 3"
      using "1.prems"(5) by simp
    have "hitung_skor_loop jawaban i t =
        hitung_skor_loop jawaban (i + 1) (t + (if REVERSE_FLAGS ! i then 3 - jawaban ! i else jawaban ! i))"
      using il ok fl by (simp add: hitung_skor_loop.simps [of jawaban i t] Let_def)
    also have "\<dots> = Inr (- 1)"
      using "1.IH" [OF il refl ok fl refl "1.prems"(1,2) _ "1.prems"(4) rest] lt by simp
    finally show ?thesis .
  qed
qed

lemma hitung_skor_loop_result:
  assumes "hitung_skor_loop jawaban i t = Inr r" and "i \<le> length REVERSE_FLAGS"
  shows "(r = - 1 \<and> (\<exists>k. i \<le> k \<and> k < length jawaban \<and> (jawaban ! k < 0 \<or> jawaban ! k > 3)))
     \<or> (t \<le> r \<and> r \<le> t + 3 * (int (length REVERSE_FLAGS) - int i)
         \<and> (\<forall>k. i \<le> k \<and> k < length jawaban \<longrightarrow> 0 \<le> jawaban ! k \<and> jawaban ! k \<le> 3))"
  using assms
proof (induction jawaban i t rule: hitung_skor_loop.induct)
  case (1 jawaban i t)
  show ?case
  proof (cases "i < length jawaban")
    case False
    with "1.prems" show ?thesis
      by (simp add: hitung_skor_loop.simps [of jawaban i t])
  next
    case il: True
    show ?thesis
    proof (cases "jawaban ! i < 0 \<or> jawaban ! i > 3")
      case True
      with il "1.prems" have "r = - 1"
        by (simp add: hitung_skor_loop.simps [of jawaban i t])
      with il True show ?thesis by blast
    next
      case ok: False
      show ?thesis
      proof (cases "i < length REVERSE_FLAGS")
        case False
        with il ok "1.prems" show ?thesis
          by (simp add: hitung_skor_loop.simps [of jawaban i t])
      next
        case fl: True
        let ?s = "if REVERSE_FLAGS ! i then 3 - jawaban ! i else jawaban ! i"
        have s: "0 \<le> ?s \<and> ?s \<le> 3" using ok by auto
        have "hitung_skor_loop jawaban (i + 1) (t + ?s) = Inr r"
          using il ok fl "1.prems"(1) by (simp add: hitung_skor_loop.simps [of jawaban i t] Let_def)
        from "1.IH" [OF il refl ok fl refl this] fl
        consider (a) "r = - 1" "\<exists>k. i + 1 \<le> k \<and> k < length jawaban \<and> (jawaban ! k < 0 \<or> jawaban ! k > 3)"
          | (b) "t + ?s \<le> r" "r \<le> t + ?s + 3 * (int (length REVERSE_FLAGS) - int (i + 1))"
            "\<forall>k. i + 1 \<le> k \<and> k < length jawaban \<longrightarrow> 0 \<le> jawaban ! k \<and> jawaban ! k \<le> 3"
          by auto
        then show ?thesis
        proof cases
          case a
          then obtain k where "i + 1 \<le> k" "k < length jawaban" "jawaban ! k < 0 \<or> jawaban ! k > 3"
            by blast
          then have "i \<le> k \<and> k < length jawaban \<and> (jawaban ! k < 0 \<or> jawaban ! k > 3)" by simp
          with a(1) show ?thesis by blast
        next
          case b
          have all: "\<forall>k. i \<le> k \<and> k < length jawaban \<longrightarrow> 0 \<le> jawaban ! k \<and> jawaban ! k \<le> 3"
          proof (intro allI impI)
            fix k assume k: "i \<le> k \<and> k < length jawaban"
            show "0 \<le> jawaban ! k \<and> jawaban ! k \<le> 3"
            proof (cases "k = i")
              case True with ok show ?thesis by auto
            next
              case False with k b(3) show ?thesis by simp
            qed
          qed
          from b(1,2) s have "t \<le> r \<and> r \<le> t + 3 * (int (length REVERSE_FLAGS) - int i)"
            by auto
          with all show ?thesis by blast
        qed
      qed
    qed
  qed
qed

lemma hitung_skor_loop_fault:
  "hitung_skor_loop jawaban i t = Inl f \<Longrightarrow> i \<le> length REVERSE_FLAGS \<Longrightarrow>
   f = OutOfBounds (length REVERSE_FLAGS) \<and> length REVERSE_FLAGS < length jawaban"
proof (induction jawaban i t rule: hitung_skor_loop.induct)
  case (1 jawaban i t)
  from "1.prems"(1) have il: "i < length jawaban"
    by (simp add: hitung_skor_loop.simps [of jawaban i t] split: if_splits)
  from "1.prems"(1) il have ok: "\<not> (jawaban ! i < 0 \<or> jawaban ! i > 3)"
    by (auto simp add: hitung_skor_loop.simps [of jawaban i t] split: if_splits)
  show ?case
  proof (cases "i < length REVERSE_FLAGS")
    case False
    with il ok "1.prems" show ?thesis
      by (simp add: hitung_skor_loop.simps [of jawaban i t])
  next
    case fl: True
    have "hitung_skor_loop jawaban (i + 1) (t + (if REVERSE_FLAGS ! i then 3 - jawaban ! i else jawaban ! i)) = Inl f"
      using il ok fl "1.prems"(1) by (simp add: hitung_skor_loop.simps [of jawaban i t] Let_def)
    from "1.IH" [OF il refl ok fl refl this] fl show ?thesis by simp
  qed
qed

subsection \<open>The function\<close>

lemma hitung_skor_valid:
  assumes "length jawaban \<le> length REVERSE_FLAGS"
    and "\<forall>x\<in>set jawaban. 0 \<le> x \<and> x \<le> 3"
  shows "hitung_skor jawaban =
    Inr (\<Sum>k<length jawaban. if REVERSE_FLAGS ! k then 3 - jawaban ! k else jawaban ! k)"
proof -
  from assms(2) have "\<forall>k. 0 \<le> k \<and> k < length jawaban \<longrightarrow> 0 \<le> jawaban ! k \<and> jawaban ! k \<le> 3"
    by simp
  from hitung_skor_loop_valid [OF assms(1) this, of 0] show ?thesis
    by (simp add: hitung_skor_def atLeast0LessThan)
qed

lemma first_out_of_range:
  assumes "\<exists>x\<in>set jawaban. x < 0 \<or> 3 < (x::int)"
  shows "\<exists>k<length jawaban. (jawaban ! k < 0 \<or> 3 < jawaban ! k)
     \<and> (\<forall>j<k. 0 \<le> jawaban ! j \<and> jawaban ! j \<le> 3)"
proof -
  let ?P = "\<lambda>k. k < length jawaban \<and> (jawaban ! k < 0 \<or> 3 < jawaban ! k)"
  from assms obtain x where x: "x \<in> set jawaban" "x < 0 \<or> 3 < x" by blast
  from x(1) obtain n where "n < length jawaban" "jawaban ! n = x"
    by (auto simp: in_set_conv_nth)
  with x(2) have n: "?P n" by simp
  define k where "k = (LEAST k. ?P k)"
  have k: "?P k" unfolding k_def using n by (rule LeastI)
  have "\<forall>j<k. 0 \<le> jawaban ! j \<and> jawaban ! j \<le> 3"
  proof (intro allI impI)
    fix j assume "j < k"
    then have "\<not> ?P j" unfolding k_def by (rule not_less_Least)
    moreover from \<open>j < k\<close> k have "j < length jawaban" by simp
    ultimately show "0 \<le> jawaban ! j \<and> jawaban ! j \<le> 3" by auto
  qed
  with k show ?thesis by blast
qed

lemma hitung_skor_invalid:
  assumes "length jawaban \<le> length REVERSE_FLAGS"
    and "\<exists>x\<in>set jawaban. x < 0 \<or> 3 < x"
  shows "hitung_skor jawaban = Inr (- 1)"
proof -
  from first_out_of_range [OF assms(2)] obtain k where k: "k < length jawaban"
    "jawaban ! k < 0 \<or> jawaban ! k > 3" "\<forall>j<k. 0 \<le> jawaban ! j \<and> jawaban ! j \<le> 3"
    by auto
  from k(1) assms(1) have "k \<le> length REVERSE_FLAGS" by simp
  with k show ?thesis unfolding hitung_skor_def
    by (intro hitung_skor_loop_reject [of k]) auto
qed

lemma hitung_skor_returns:
  assumes "hitung_skor jawaban = Inr r"
  shows "(r = - 1 \<and> (\<exists>x\<in>set jawaban. x < 0 \<or> 3 < x))
     \<or> (0 \<le> r \<and> r \<le> 30 \<and> (\<forall>x\<in>set jawaban. 0 \<le> x \<and> x \<le> 3))"
proof -
  from assms have "hitung_skor_loop jawaban 0 0 = Inr r" by (simp add: hitung_skor_def)
  from hitung_skor_loop_result [OF this]
  consider (a) "r = - 1" "\<exists>k<length jawaban. jawaban ! k < 0 \<or> jawaban ! k > 3"
    | (b) "0 \<le> r" "r \<le> 3 * int (length REVERSE_FLAGS)"
          "\<forall>k<length jawaban. 0 \<le> jawaban ! k \<and> jawaban ! k \<le> 3"
    by auto
  then show ?thesis
  proof cases
    case a
    from a(2) obtain k where k: "k < length jawaban" "jawaban ! k < 0 \<or> jawaban ! k > 3"
      by blast
    from k(1) have "jawaban ! k \<in> set jawaban" by (rule nth_mem)
    with k(2) a(1) show ?thesis by blast
  next
    case b
    from b(3) have "\<forall>x\<in>set jawaban. 0 \<le> x \<and> x \<le> 3" by (auto simp: in_set_conv_nth)
    with b(1,2) show ?thesis by (simp add: length_REVERSE_FLAGS)
  qed
qed

lemma hitung_skor_no_fault:
  assumes "length jawaban \<le> length REVERSE_FLAGS"
  shows "\<exists>r. hitung_skor jawaban = Inr r"
proof (cases "hitung_skor jawaban")
  case (Inl f)
  then have "hitung_skor_loop jawaban 0 0 = Inl f" by (simp add: hitung_skor_def)
  from hitung_skor_loop_fault [OF this] assms show ?thesis by simp
next
  case (Inr r)
  then show ?thesis by blast
qed

subsection \<open>The call in a world\<close>

lemma hitung_skor_in_loop_world: "snd (hitung_skor_in_loop jawaban i t w) = w"
proof (induction jawaban i t w rule: hitung_skor_in_loop.induct)
  case (1 jawaban i t w)
  show ?case
  proof (cases "i < length jawaban \<and> \<not> (jawaban ! i < 0 \<or> jawaban ! i > 3)
      \<and> i < length (reverse_flags w)")
    case True
    with "1.IH" [OF _ refl _ _ refl] show ?thesis
      by (simp add: hitung_skor_in_loop.simps [of jawaban i t w] Let_def)
  next
    case False
    then show ?thesis
      by (auto simp add: hitung_skor_in_loop.simps [of jawaban i t w] Let_def)
  qed
qed

lemma hitung_skor_in_loop_flags:
  "reverse_flags w' = reverse_flags w \<Longrightarrow>
   fst (hitung_skor_in_loop jawaban i t w') = fst (hitung_skor_in_loop jawaban i t w)"
proof (induction jawaban i t w rule: hitung_skor_in_loop.induct)
  case (1 jawaban i t w)
  show ?case
  proof (cases "i < length jawaban \<and> \<not> (jawaban ! i < 0 \<or> jawaban ! i > 3)
      \<and> i < length (reverse_flags w)")
    case True
    with "1.IH" [OF _ refl _ _ refl "1.prems"] "1.prems" show ?thesis
      by (simp add: hitung_skor_in_loop.simps [of jawaban i t w]
          hitung_skor_in_loop.simps [of jawaban i t w'] Let_def)
  next
    case False
    with "1.prems" show ?thesis
      by (auto simp add: hitung_skor_in_loop.simps [of jawaban i t w]
          hitung_skor_in_loop.simps [of jawaban i t w'] Let_def)
  qed
qed

lemma hitung_skor_in_loop_value:
  "reverse_flags w = REVERSE_FLAGS \<Longrightarrow>
   fst (hitung_skor_in_loop jawaban i t w) = hitung_skor_loop jawaban i t"
proof (induction jawaban i t w rule: hitung_skor_in_loop.induct)
  case (1 jawaban i t w)
  show ?case
  proof (cases "i < length jawaban \<and> \<not> (jawaban ! i < 0 \<or> jawaban ! i > 3)
      \<and> i < length (reverse_flags w)")
    case True
    with "1.IH" [OF _ refl _ _ refl "1.prems"] "1.prems" show ?thesis
      by (simp add: hitung_skor_in_loop.simps [of jawaban i t w]
          hitung_skor_loop.simps [of jawaban i t] Let_def)
  next
    case False
    with "1.prems" show ?thesis
      by (auto simp add: hitung_skor_in_loop.simps [of jawaban i t w]
          hitung_skor_loop.simps [of jawaban i t] Let_def)
  qed
qed

subsection \<open>The reads\<close>

lemma hitung_skor_reads_loop_range:
  "set (hitung_skor_reads_loop jawaban i) \<subseteq> {i..<length jawaban}"
proof (induction jawaban i rule: hitung_skor_reads_loop.induct)
  case (1 jawaban i)
  show ?case
  proof (cases "i < length jawaban \<and> \<not> (jawaban ! i < 0 \<or> jawaban ! i > 3) \<and> i < length REVERSE_FLAGS")
    case True
    with "1.IH" [OF _ refl] have "set (hitung_skor_reads_loop jawaban (i + 1)) \<subseteq> {i + 1..<length jawaban}"
      by simp
    with True show ?thesis
      by (auto simp add: hitung_skor_reads_loop.simps [of jawaban i] Let_def)
  next
    case False
    then show ?thesis
      by (auto simp add: hitung_skor_reads_loop.simps [of jawaban i] Let_def)
  qed
qed

lemma hitung_skor_reads_loop_valid:
  assumes "length jawaban \<le> length REVERSE_FLAGS"
    and "\<forall>k. i \<le> k \<and> k < length jawaban \<longrightarrow> 0 \<le> jawaban ! k \<and> jawaban ! k \<le> 3"
  shows "hitung_skor_reads_loop jawaban i = [i..<length jawaban]"
  using assms
proof (induction jawaban i rule: hitung_skor_reads_loop.induct)
  case (1 jawaban i)
  show ?case
  proof (cases "i < length jawaban")
    case False
    then show ?thesis by (simp add: hitung_skor_reads_loop.simps [of jawaban i])
  next
    case True
    with "1.prems" have ok: "\<not> (jawaban ! i < 0 \<or> jawaban ! i > 3)" and fl: "i < length REVERSE_FLAGS"
      by force+
    have rest: "\<forall>k. i + 1 \<le> k \<and> k < length jawaban \<longrightarrow> 0 \<le> jawaban ! k \<and> jawaban ! k \<le> 3"
      using "1.prems"(2) by simp
    from "1.IH" [OF True refl ok fl "1.prems"(1) rest] True ok fl show ?thesis
      by (simp add: hitung_skor_reads_loop.simps [of jawaban i] Let_def upt_conv_Cons)
  qed
qed

lemma hitung_skor_loop_fault_iff:
  "(hitung_skor_loop jawaban i t = Inl (OutOfBounds n))
     \<longleftrightarrow> (n \<in> set (hitung_skor_reads_loop jawaban i) \<and> length REVERSE_FLAGS \<le> n)"
proof (induction jawaban i t rule: hitung_skor_loop.induct)
  case (1 jawaban i t)
  show ?case
  proof (cases "i < length jawaban \<and> \<not> (jawaban ! i < 0 \<or> jawaban ! i > 3)")
    case False
    then show ?thesis
      by (auto simp add: hitung_skor_loop.simps [of jawaban i t]
          hitung_skor_reads_loop.simps [of jawaban i] Let_def)
  next
    case True
    then have il: "i < length jawaban" and ok: "\<not> (jawaban ! i < 0 \<or> jawaban ! i > 3)" by auto
    show ?thesis
    proof (cases "i < length REVERSE_FLAGS")
      case False
      with il ok show ?thesis
        by (auto simp add: hitung_skor_loop.simps [of jawaban i t]
          hitung_skor_reads_loop.simps [of jawaban i] Let_def)
    next
      case fl: True
      from "1.IH" [OF il refl ok fl refl] il ok fl show ?thesis
        by (auto simp add: hitung_skor_loop.simps [of jawaban i t]
          hitung_skor_reads_loop.simps [of jawaban i] Let_def)
    qed
  qed
qed

section \<open>Properties of \<open>main\<close>\<close>

subsection \<open>The argument loop\<close>

lemma load_args_parsed:
  assumes "map stoi (drop i argv) = map Inr ns"
  shows "load_args argv i jawaban = Inr (jawaban @ ns)"
  using assms
proof (induction argv i jawaban arbitrary: ns rule: load_args.induct)
  case (1 argv i jawaban)
  show ?case
  proof (cases "i < length argv")
    case False
    with "1.prems" show ?thesis by (simp add: load_args.simps [of argv i jawaban])
  next
    case True
    then have "drop i argv = argv ! i # drop (i + 1) argv"
      by (simp add: Cons_nth_drop_Suc)
    with "1.prems" obtain n ns' where ns: "ns = n # ns'" "stoi (argv ! i) = Inr n"
      "map stoi (drop (i + 1) argv) = map Inr ns'"
      by (cases ns) auto
    from "1.IH" [OF True ns(2) ns(3)] True ns(1,2) show ?thesis
      by (simp add: load_args.simps [of argv i jawaban])
  qed
qed

lemma load_args_failed:
  assumes "k < length argv" and "stoi (argv ! k) = Inl e" and "i \<le> k"
    and "\<forall>j. i \<le> j \<and> j < k \<longrightarrow> (\<exists>n. stoi (argv ! j) = Inr n)"
  shows "load_args argv i jawaban =
    Inl \<lparr>stdout = [],
         stderr = ''C++ ERROR: Argumen ke-'' @ show_int (int k) @ '' ('' @ argv ! k
           @ '') bukan angka valid.'' @ endl,
         exit_code = 1\<rparr>"
  using assms
proof (induction argv i jawaban rule: load_args.induct)
  case (1 argv i jawaban)
  from "1.prems" have il: "i < length argv" by simp
  show ?case
  proof (cases "i = k")
    case True
    from "1.prems"(1,2) have "load_args argv k jawaban =
      Inl \<lparr>stdout = [],
           stderr = ''C++ ERROR: Argumen ke-'' @ show_int (int k) @ '' ('' @ argv ! k
             @ '') bukan angka valid.'' @ endl,
           exit_code = 1\<rparr>"
      by (simp add: load_args.simps [of argv k jawaban])
    with True show ?thesis by simp
  next
    case False
    with "1.prems" have lt: "i < k" by simp
    with "1.prems"(4) obtain n where n: "stoi (argv ! i) = Inr n" by auto
    have rest: "\<forall>j. i + 1 \<le> j \<and> j < k \<longrightarrow> (\<exists>n. stoi (argv ! j) = Inr n)"
      using "1.prems"(4) by simp
    from lt have "i + 1 \<le> k" by simp
    from "1.IH" [OF il n "1.prems"(1,2) this rest] il n show ?thesis
      by (simp add: load_args.simps [of argv i jawaban])
  qed
qed

lemma load_args_length:
  "load_args argv i jawaban = Inr ns \<Longrightarrow> length ns = length jawaban + (length argv - i)"
proof (induction argv i jawaban rule: load_args.induct)
  case (1 argv i jawaban)
  show ?case
  proof (cases "i < length argv")
    case False
    with "1.prems" show ?thesis by (simp add: load_args.simps [of argv i jawaban])
  next
    case True
    with "1.prems" obtain n where n: "stoi (argv ! i) = Inr n"
      by (cases "stoi (argv ! i)") (simp_all add: load_args.simps [of argv i jawaban])
    with True "1.prems" have "load_args argv (i + 1) (jawaban @ [n]) = Inr ns"
      by (simp add: load_args.simps [of argv i jawaban])
    from "1.IH" [OF True n this] True show ?thesis by simp
  qed
qed

lemma first_parse_failure:
  assumes "\<exists>a\<in>set args. \<exists>e. stoi a = Inl e"
  shows "\<exists>k<length args. (\<exists>e. stoi (args ! k) = Inl e) \<and> (\<forall>j<k. \<exists>n. stoi (args ! j) = Inr n)"
proof -
  let ?P = "\<lambda>k. k < length args \<and> (\<exists>e. stoi (args ! k) = Inl e)"
  from assms obtain a e where a: "a \<in> set args" "stoi a = Inl e" by blast
  from a(1) obtain m where "m < length args" "args ! m = a"
    by (auto simp: in_set_conv_nth)
  with a(2) have m: "?P m" by simp
  define k where "k = (LEAST k. ?P k)"
  have k: "?P k" unfolding k_def using m by (rule LeastI)
  have "\<forall>j<k. \<exists>n. stoi (args ! j) = Inr n"
  proof (intro allI impI)
    fix j assume "j < k"
    then have "\<not> ?P j" unfolding k_def by (rule not_less_Least)
    moreover from \<open>j < k\<close> k have "j < length args" by simp
    ultimately have "\<forall>e. stoi (args ! j) \<noteq> Inl e" by simp
    then show "\<exists>n. stoi (args ! j) = Inr n" by (cases "stoi (args ! j)") auto
  qed
  with k show ?thesis by blast
qed

lemma all_parsed:
  assumes "\<not> (\<exists>a\<in>set args. \<exists>e. stoi a = Inl e)"
  shows "\<exists>ns. map stoi args = map Inr ns"
  using assms
proof (induction args)
  case Nil
  then show ?case by simp
next
  case (Cons a args)
  then obtain ns where ns: "map stoi args = map Inr ns" by auto
  from Cons.prems obtain n where "stoi a = Inr n" by (cases "stoi a") auto
  with ns have "map stoi (a # args) = map Inr (n # ns)" by simp
  then show ?case by blast
qed

subsection \<open>The second scan\<close>

lemma rescan_first:
  assumes "\<forall>y\<in>set pre. 0 \<le> y \<and> y \<le> 3" and "x < 0 \<or> 3 < x"
  shows "rescan (pre @ x # post) = Some x"
  using assms by (induction pre) auto

lemma rescan_None: "rescan vs = None \<longleftrightarrow> (\<forall>x\<in>set vs. 0 \<le> x \<and> x \<le> 3)"
  by (induction vs) auto

lemma rescan_Some: "rescan vs = Some x \<Longrightarrow> x \<in> set vs \<and> (x < 0 \<or> 3 < x)"
  by (induction vs) (auto split: if_splits)

subsection \<open>The four ways \<open>main\<close> ends\<close>

lemma main_arity:
  assumes "length argv \<noteq> 11"
  shows "main argv =
    Inr \<lparr>stdout = [],
         stderr = ''C++ ERROR: Harus menerima 10 jawaban sebagai argumen, diterima: ''
           @ show_int (int (length argv) - 1) @ ''.'' @ endl,
         exit_code = 1\<rparr>"
  using assms by (simp add: main_def)

lemma main_parse:
  assumes "length argv = 11" and "1 \<le> k" and "k < 11" and "stoi (argv ! k) = Inl e"
    and "\<forall>j. 1 \<le> j \<and> j < k \<longrightarrow> (\<exists>n. stoi (argv ! j) = Inr n)"
  shows "main argv =
    Inr \<lparr>stdout = [],
         stderr = ''C++ ERROR: Argumen ke-'' @ show_int (int k) @ '' ('' @ argv ! k
           @ '') bukan angka valid.'' @ endl,
         exit_code = 1\<rparr>"
proof -
  from assms(1,3) have "k < length argv" by simp
  from load_args_failed [OF this assms(4,2,5), of "[]"] assms(1) show ?thesis
    by (simp add: main_def)
qed

lemma main_range:
  assumes "length argv = 11" and "map stoi (tl argv) = map Inr (pre @ x # post)"
    and "\<forall>y\<in>set pre. 0 \<le> y \<and> y \<le> 3" and "x < 0 \<or> 3 < x"
  shows "main argv =
    Inr \<lparr>stdout = [],
         stderr = ''C++ ERROR: Nilai jawaban di luar rentang 0-3 terdeteksi: ''
           @ show_int x @ ''.'' @ endl,
         exit_code = 1\<rparr>"
proof -
  let ?ns = "pre @ x # post"
  from assms(2) have "map stoi (drop 1 argv) = map Inr ?ns" by (simp add: drop_Suc)
  from load_args_parsed [OF this, of "[]"] have la: "load_args argv 1 [] = Inr ?ns" by simp
  from assms(2) have "length (tl argv) = length ?ns" by (metis length_map)
  with assms(1) have "length ?ns \<le> length REVERSE_FLAGS" by (simp add: length_REVERSE_FLAGS)
  moreover from assms(4) have "\<exists>y\<in>set ?ns. y < 0 \<or> 3 < y" by auto
  ultimately have hs: "hitung_skor ?ns = Inr (- 1)" by (rule hitung_skor_invalid)
  from rescan_first [OF assms(3,4)] have "rescan ?ns = Some x" .
  with la hs assms(1) show ?thesis by (simp add: main_def)
qed

lemma main_success:
  assumes "length argv = 11" and "map stoi (tl argv) = map Inr ns"
    and "\<forall>y\<in>set ns. 0 \<le> y \<and> y \<le> 3"
  shows "\<exists>s. hitung_skor ns = Inr s \<and> 0 \<le> s \<and> s \<le> 30 \<and>
    main argv = Inr \<lparr>stdout = show_int s @ endl, stderr = [], exit_code = 0\<rparr>"
proof -
  from assms(2) have "map stoi (drop 1 argv) = map Inr ns" by (simp add: drop_Suc)
  from load_args_parsed [OF this, of "[]"] have la: "load_args argv 1 [] = Inr ns" by simp
  from assms(2) have "length (tl argv) = length ns" by (metis length_map)
  with assms(1) have "length ns \<le> length REVERSE_FLAGS" by (simp add: length_REVERSE_FLAGS)
  then obtain s where s: "hitung_skor ns = Inr s" using hitung_skor_no_fault by blast
  from hitung_skor_returns [OF s] assms(3) have b: "0 \<le> s \<and> s \<le> 30" by auto
  then have "s \<noteq> - 1" by simp
  with la s assms(1) have "main argv = Inr \<lparr>stdout = show_int s @ endl, stderr = [], exit_code = 0\<rparr>"
    by (simp add: main_def)
  with s b show ?thesis by blast
qed

text \<open>Every argument vector falls under one of the four.\<close>

lemma main_cases:
  obtains (arity) "length argv \<noteq> 11"
  | (parse) k e where "length argv = 11" "1 \<le> k" "k < 11" "stoi (argv ! k) = Inl e"
      "\<forall>j. 1 \<le> j \<and> j < k \<longrightarrow> (\<exists>n. stoi (argv ! j) = Inr n)"
  | (range) pre x post where "length argv = 11" "map stoi (tl argv) = map Inr (pre @ x # post)"
      "\<forall>y\<in>set pre. 0 \<le> y \<and> y \<le> 3" "x < 0 \<or> 3 < x"
  | (success) ns where "length argv = 11" "map stoi (tl argv) = map Inr ns"
      "\<forall>y\<in>set ns. 0 \<le> y \<and> y \<le> 3"
proof (cases "length argv = 11")
  case False
  then show ?thesis by (rule arity)
next
  case len: True
  show ?thesis
  proof (cases "\<exists>a\<in>set (tl argv). \<exists>e. stoi a = Inl e")
    case True
    from first_parse_failure [OF True] obtain k e where k: "k < length (tl argv)"
      "stoi (tl argv ! k) = Inl e" "\<forall>j<k. \<exists>n. stoi (tl argv ! j) = Inr n"
      by blast
    from k(1) len have k11: "k + 1 < 11" by simp
    from k(1,2) have f: "stoi (argv ! (k + 1)) = Inl e" by (simp add: nth_tl)
    have "\<forall>j. 1 \<le> j \<and> j < k + 1 \<longrightarrow> (\<exists>n. stoi (argv ! j) = Inr n)"
    proof (intro allI impI)
      fix j assume j: "1 \<le> j \<and> j < k + 1"
      then have "j - 1 < k" by arith
      with k(3) obtain n where "stoi (tl argv ! (j - 1)) = Inr n" by blast
      moreover from j k(1) have "j - 1 < length (tl argv)" by arith
      ultimately have "stoi (argv ! Suc (j - 1)) = Inr n" by (simp add: nth_tl)
      with j show "\<exists>n. stoi (argv ! j) = Inr n" by simp
    qed
    with len k11 f show ?thesis by (intro parse [of "k + 1" e]) simp_all
  next
    case False
    from all_parsed [OF False] obtain ns where ns: "map stoi (tl argv) = map Inr ns" by blast
    show ?thesis
    proof (cases "\<exists>x\<in>set ns. x < 0 \<or> 3 < x")
      case True
      from split_list_first_prop [OF True] obtain pre x post where
        "ns = pre @ x # post" "x < 0 \<or> 3 < x" "\<forall>y\<in>set pre. \<not> (y < 0 \<or> 3 < y)"
        by blast
      with len ns show ?thesis by (intro range [of pre x post]) auto
    next
      case False
      with len ns show ?thesis by (intro success [of ns]) auto
    qed
  qed
qed

subsection \<open>When \<open>stoi\<close> throws\<close>

text \<open>
  With exactly 10 arguments, when \<open>stoi\<close> throws on the argument at the 0-based index \<open>k\<close>
  and on none before it, \<open>main\<close> writes the message of line 47 with the 1-based position
  \<open>k + 1\<close> and the text of that argument to standard error, nothing to standard output, and
  returns 1. By \<open>first_parse_failure\<close> there is such a \<open>k\<close> whenever \<open>stoi\<close> throws on any
  argument.
\<close>

lemma main_parse_error:
  assumes "length args = 10" and "k < 10" and "stoi (args ! k) = Inl e"
    and "\<forall>j<k. \<exists>n. stoi (args ! j) = Inr n"
  shows "main (prog # args) =
    Inr \<lparr>stdout = [],
         stderr = ''C++ ERROR: Argumen ke-'' @ show_int (int k + 1) @ '' ('' @ args ! k
           @ '') bukan angka valid.'' @ endl,
         exit_code = 1\<rparr>"
proof -
  let ?argv = "prog # args"
  have len: "length ?argv = 11" using assms(1) by simp
  have k1: "1 \<le> k + 1" and k11: "k + 1 < 11" using assms(2) by simp_all
  have f: "stoi (?argv ! (k + 1)) = Inl e" using assms(3) by simp
  have "\<forall>j. 1 \<le> j \<and> j < k + 1 \<longrightarrow> (\<exists>n. stoi (?argv ! j) = Inr n)"
  proof (intro allI impI)
    fix j assume j: "1 \<le> j \<and> j < k + 1"
    then obtain j' where j': "j = Suc j'" "j' < k" by (cases j) auto
    with assms(4) show "\<exists>n. stoi (?argv ! j) = Inr n" by simp
  qed
  from main_parse [OF len k1 k11 f this] show ?thesis by (simp add: add.commute)
qed

lemma main_parse_error_example:
  "stoi ''abc'' = Inl invalid_argument
   \<and> main [''prog'', ''1'', ''2'', ''abc'', ''0'', ''1'', ''2'', ''3'', ''0'', ''1'', ''2''] =
     Inr \<lparr>stdout = [],
          stderr = ''C++ ERROR: Argumen ke-3 (abc) bukan angka valid.'' @ endl,
          exit_code = 1\<rparr>"
proof -
  let ?args = "[''1'', ''2'', ''abc'', ''0'', ''1'', ''2'', ''3'', ''0'', ''1'', ''2'']"
  have f: "stoi ''abc'' = Inl invalid_argument"
    by (simp add: stoi_def isspace_def isdigit_def)
  have p1: "stoi ''1'' = Inr 1" and p2: "stoi ''2'' = Inr 2"
    by (simp_all add: stoi_def isspace_def isdigit_def digits_value_def)
  have len: "length ?args = 10" by simp
  have k: "(2::nat) < 10" by simp
  have f': "stoi (?args ! 2) = Inl invalid_argument" using f by simp
  have before: "\<forall>j<2. \<exists>n. stoi (?args ! j) = Inr n"
  proof (intro allI impI)
    fix j :: nat assume "j < 2"
    then have "j = 0 \<or> j = 1" by arith
    with p1 p2 show "\<exists>n. stoi (?args ! j) = Inr n" by auto
  qed
  from main_parse_error [OF len k f' before, of "''prog''"]
  have "main (''prog'' # ?args) =
     Inr \<lparr>stdout = [],
          stderr = ''C++ ERROR: Argumen ke-3 (abc) bukan angka valid.'' @ endl,
          exit_code = 1\<rparr>"
    by (simp add: show_int_def show_nat.simps)
  with f show ?thesis by simp
qed

subsection \<open>The model at some inputs\<close>

text \<open>
  With 11 elements in \<open>0 .. 3\<close> the loop reaches \<open>REVERSE_FLAGS[10]\<close>. The model ends the
  run there, whatever follows in the vector, since C++ defines nothing about the run after
  that read.
\<close>

lemma hitung_skor_eleven:
  "hitung_skor [0, 0, 0, 0, 0, 0, 0, 0, 0, 0, 0] = Inl (OutOfBounds 10)"
  by code_simp

lemma hitung_skor_twelve:
  "hitung_skor [0, 0, 0, 0, 0, 0, 0, 0, 0, 0, 0, 5] = Inl (OutOfBounds 10)"
  by code_simp

text \<open>What \<open>stoi\<close> accepts and what it rejects.\<close>

lemma stoi_accepts:
  "stoi ''3'' = Inr 3" "stoi ''-1'' = Inr (- 1)" "stoi ''+2'' = Inr 2" "stoi '' 2'' = Inr 2"
  "stoi ''3abc'' = Inr 3" "stoi ''007'' = Inr 7" "stoi ''-2147483648'' = Inr (- 2147483648)"
  by (simp_all add: stoi_def isspace_def isdigit_def digits_value_def)

lemma stoi_rejects:
  "stoi ''abc'' = Inl invalid_argument" "stoi [] = Inl invalid_argument"
  "stoi ''-'' = Inl invalid_argument" "stoi ''2147483648'' = Inl out_of_range"
  by (simp_all add: stoi_def isspace_def isdigit_def digits_value_def)

section \<open>The claims about the scorer\<close>

text \<open>
  Claim C1. For a vector \<open>v\<close> of exactly 10 integers, each in \<open>0 .. 3\<close>, \<open>hitung_skor\<close>
  returns the sum over the 10 positions of the specification's contribution (\<open>3 - v\<^sub>i\<close> at
  the positions 4 and 8, \<open>v\<^sub>i\<close> elsewhere), and that sum lies in \<open>0 .. 30\<close>.
\<close>

theorem hitung_skor_sum_of_contributions:
  assumes "length v = 10" and "\<forall>x\<in>set v. 0 \<le> x \<and> x \<le> 3"
  shows "hitung_skor v = Inr (\<Sum>i<10. spec_contribution v i)
    \<and> 0 \<le> (\<Sum>i<10. spec_contribution v i) \<and> (\<Sum>i<10. spec_contribution v i) \<le> 30"
proof -
  have "(\<Sum>k<10. if REVERSE_FLAGS ! k then 3 - v ! k else v ! k) = (\<Sum>i<10. spec_contribution v i)"
    by (rule sum.cong) (simp_all add: spec_contribution_def REVERSE_FLAGS_nth)
  moreover from assms(1) have "length v \<le> length REVERSE_FLAGS"
    by (simp add: length_REVERSE_FLAGS)
  from hitung_skor_valid [OF this assms(2)] assms(1)
  have "hitung_skor v = Inr (\<Sum>k<10. if REVERSE_FLAGS ! k then 3 - v ! k else v ! k)" by simp
  ultimately have eq: "hitung_skor v = Inr (\<Sum>i<10. spec_contribution v i)" by simp
  from hitung_skor_returns [OF eq] assms(2) have "0 \<le> (\<Sum>i<10. spec_contribution v i)
      \<and> (\<Sum>i<10. spec_contribution v i) \<le> 30"
    by auto
  with eq show ?thesis by simp
qed

theorem hitung_skor_sum_of_contributions_witness:
  "hitung_skor [0, 1, 2, 3, 0, 1, 2, 3, 0, 1] = Inr 19
   \<and> (\<Sum>i<10. spec_contribution [0, 1, 2, 3, 0, 1, 2, 3, 0, 1] i) = 19"
  using hitung_skor_sum_of_contributions [of "[0, 1, 2, 3, 0, 1, 2, 3, 0, 1]"]
  by (simp add: spec_contribution_def eval_nat_numeral lessThan_Suc)

text \<open>
  Claim C5. The all-zero vector scores 6 and the all-three vector scores 24.
\<close>

theorem hitung_skor_boundaries:
  "hitung_skor [0, 0, 0, 0, 0, 0, 0, 0, 0, 0] = Inr 6
   \<and> hitung_skor [3, 3, 3, 3, 3, 3, 3, 3, 3, 3] = Inr 24"
proof
  show "hitung_skor [0, 0, 0, 0, 0, 0, 0, 0, 0, 0] = Inr 6" by code_simp
  show "hitung_skor [3, 3, 3, 3, 3, 3, 3, 3, 3, 3] = Inr 24" by code_simp
qed

text \<open>
  Claim C8. \<open>hitung_skor\<close> is deterministic and free of side effects. A call leaves the
  world as it found it: the table and both streams are the same after the call as before.
  Two calls on the same vector in two worlds that hold the same table return the same
  result, whatever the streams hold; so does a second call made in the world the first one
  left. In a world whose table is the constant \<open>REVERSE_FLAGS\<close>, which is every world of
  this program since the table is \<open>const\<close>, that result is the value of the function
  \<open>hitung_skor\<close> of the other theorems.
\<close>

theorem hitung_skor_pure:
  "snd (hitung_skor_in jawaban w) = w
   \<and> (reverse_flags w' = reverse_flags w \<longrightarrow>
        fst (hitung_skor_in jawaban w') = fst (hitung_skor_in jawaban w))
   \<and> fst (hitung_skor_in jawaban (snd (hitung_skor_in jawaban w))) = fst (hitung_skor_in jawaban w)
   \<and> (reverse_flags w = REVERSE_FLAGS \<longrightarrow> fst (hitung_skor_in jawaban w) = hitung_skor jawaban)"
proof (intro conjI impI)
  show same: "snd (hitung_skor_in jawaban w) = w"
    unfolding hitung_skor_in_def by (rule hitung_skor_in_loop_world)
  show "fst (hitung_skor_in jawaban (snd (hitung_skor_in jawaban w))) = fst (hitung_skor_in jawaban w)"
    by (simp only: same)
next
  assume "reverse_flags w' = reverse_flags w"
  then show "fst (hitung_skor_in jawaban w') = fst (hitung_skor_in jawaban w)"
    unfolding hitung_skor_in_def by (rule hitung_skor_in_loop_flags)
next
  assume "reverse_flags w = REVERSE_FLAGS"
  then show "fst (hitung_skor_in jawaban w) = hitung_skor jawaban"
    unfolding hitung_skor_in_def hitung_skor_def by (rule hitung_skor_in_loop_value)
qed

theorem hitung_skor_pure_witness:
  "hitung_skor_in [0, 1, 2, 3, 0, 1, 2, 3, 0, 1]
       \<lparr>reverse_flags = REVERSE_FLAGS, cout = [], cerr = []\<rparr>
     = (Inr 19, \<lparr>reverse_flags = REVERSE_FLAGS, cout = [], cerr = []\<rparr>)
   \<and> hitung_skor_in [0, 1, 2, 3, 0, 1, 2, 3, 0, 1]
       \<lparr>reverse_flags = REVERSE_FLAGS, cout = ''6'' @ endl, cerr = ''C++ ERROR''\<rparr>
     = (Inr 19, \<lparr>reverse_flags = REVERSE_FLAGS, cout = ''6'' @ endl, cerr = ''C++ ERROR''\<rparr>)"
proof -
  let ?v = "[0, 1, 2, 3, 0, 1, 2, 3, 0, 1 :: int]"
  let ?w1 = "\<lparr>reverse_flags = REVERSE_FLAGS, cout = [], cerr = []\<rparr>"
  let ?w2 = "\<lparr>reverse_flags = REVERSE_FLAGS, cout = ''6'' @ endl, cerr = ''C++ ERROR''\<rparr>"
  have v: "hitung_skor ?v = Inr 19" by code_simp
  from hitung_skor_pure [of ?v ?w1 ?w2] v
  have 1: "snd (hitung_skor_in ?v ?w1) = ?w1" and 2: "fst (hitung_skor_in ?v ?w1) = Inr 19"
    and 3: "fst (hitung_skor_in ?v ?w2) = fst (hitung_skor_in ?v ?w1)"
    by simp_all
  from hitung_skor_pure [of ?v ?w2] have 4: "snd (hitung_skor_in ?v ?w2) = ?w2" by blast
  from 1 2 have a: "hitung_skor_in ?v ?w1 = (Inr 19, ?w1)" by (simp add: prod_eq_iff)
  from 2 3 4 have b: "hitung_skor_in ?v ?w2 = (Inr 19, ?w2)" by (simp add: prod_eq_iff)
  from a b show ?thesis by (rule conjI)
qed

text \<open>
  Claim C9. A returned \<open>-1\<close> means that some element is outside \<open>0 .. 3\<close>, and any other
  returned value is non-negative and means that every element is inside: the sentinel is
  never a score. This holds for every vector. For a vector no longer than \<open>REVERSE_FLAGS\<close>
  (10 elements, all that \<open>main\<close> ever passes) the function does return: \<open>-1\<close> when some
  element is outside \<open>0 .. 3\<close>, and a non-negative value when none is.
\<close>

theorem hitung_skor_sentinel:
  "(hitung_skor jawaban = Inr (- 1) \<longrightarrow> (\<exists>x\<in>set jawaban. x < 0 \<or> 3 < x))
   \<and> (\<forall>r. hitung_skor jawaban = Inr r \<and> r \<noteq> - 1 \<longrightarrow>
          0 \<le> r \<and> (\<forall>x\<in>set jawaban. 0 \<le> x \<and> x \<le> 3))
   \<and> (length jawaban \<le> length REVERSE_FLAGS \<longrightarrow>
        ((\<exists>x\<in>set jawaban. x < 0 \<or> 3 < x) \<longrightarrow> hitung_skor jawaban = Inr (- 1))
        \<and> ((\<forall>x\<in>set jawaban. 0 \<le> x \<and> x \<le> 3) \<longrightarrow>
              (\<exists>r. hitung_skor jawaban = Inr r \<and> 0 \<le> r)))"
proof (intro conjI impI allI)
  assume "hitung_skor jawaban = Inr (- 1)"
  from hitung_skor_returns [OF this] show "\<exists>x\<in>set jawaban. x < 0 \<or> 3 < x" by simp
next
  fix r assume r: "hitung_skor jawaban = Inr r \<and> r \<noteq> - 1"
  then have "hitung_skor jawaban = Inr r" by simp
  from hitung_skor_returns [OF this] r show "0 \<le> r" by auto
next
  fix r assume r: "hitung_skor jawaban = Inr r \<and> r \<noteq> - 1"
  then have "hitung_skor jawaban = Inr r" by simp
  from hitung_skor_returns [OF this] r show "\<forall>x\<in>set jawaban. 0 \<le> x \<and> x \<le> 3" by auto
next
  assume "length jawaban \<le> length REVERSE_FLAGS" and "\<exists>x\<in>set jawaban. x < 0 \<or> 3 < x"
  then show "hitung_skor jawaban = Inr (- 1)" by (rule hitung_skor_invalid)
next
  assume len: "length jawaban \<le> length REVERSE_FLAGS"
    and ok: "\<forall>x\<in>set jawaban. 0 \<le> x \<and> x \<le> 3"
  from hitung_skor_no_fault [OF len] obtain r where r: "hitung_skor jawaban = Inr r" by blast
  from hitung_skor_returns [OF r] ok have "0 \<le> r" by auto
  with r show "\<exists>r. hitung_skor jawaban = Inr r \<and> 0 \<le> r" by blast
qed

theorem hitung_skor_sentinel_witness:
  "length [0, 1, 2, 3, 0, 7, 2, 3, 0, 1 :: int] \<le> length REVERSE_FLAGS
   \<and> (\<exists>x\<in>set [0, 1, 2, 3, 0, 7, 2, 3, 0, 1 :: int]. x < 0 \<or> 3 < x)
   \<and> hitung_skor [0, 1, 2, 3, 0, 7, 2, 3, 0, 1] = Inr (- 1)
   \<and> length [0, 1, 2, 3, 0, 1, 2, 3, 0, 1 :: int] \<le> length REVERSE_FLAGS
   \<and> set [0, 1, 2, 3, 0, 1, 2, 3, 0, 1 :: int] \<subseteq> {0..3}
   \<and> (\<exists>r. hitung_skor [0, 1, 2, 3, 0, 1, 2, 3, 0, 1] = Inr r \<and> 0 \<le> r)"
proof -
  let ?bad = "[0, 1, 2, 3, 0, 7, 2, 3, 0, 1 :: int]"
  let ?good = "[0, 1, 2, 3, 0, 1, 2, 3, 0, 1 :: int]"
  have l1: "length ?bad \<le> length REVERSE_FLAGS" by (simp add: length_REVERSE_FLAGS)
  have b1: "\<exists>x\<in>set ?bad. x < 0 \<or> 3 < x" by simp
  have l2: "length ?good \<le> length REVERSE_FLAGS" by (simp add: length_REVERSE_FLAGS)
  have g2: "\<forall>x\<in>set ?good. 0 \<le> x \<and> x \<le> 3" by simp
  from hitung_skor_sentinel [of ?bad] l1 b1 have r1: "hitung_skor ?bad = Inr (- 1)" by blast
  from hitung_skor_sentinel [of ?good] l2 g2
  have r2: "\<exists>r. hitung_skor ?good = Inr r \<and> 0 \<le> r" by blast
  have s2: "set ?good \<subseteq> {0..3}" by simp
  from l1 b1 r1 l2 s2 r2 show ?thesis by (intro conjI)
qed

text \<open>
  Claim C10. \<open>REVERSE_FLAGS\<close> has exactly 10 entries. \<open>hitung_skor\<close> reads
  \<open>REVERSE_FLAGS[i]\<close> only at positions \<open>i\<close> below the length of its vector (at every one
  of them when all elements are in \<open>0 .. 3\<close>), and the fault of the model is exactly a
  read at an index of 10 or more. When the vector has at most 10 elements every read is in
  bounds and the function returns. \<open>main\<close> calls it with the vector that the argument loop
  built from 11 arguments, which has exactly 10 elements, so \<open>main\<close> never faults.
\<close>

theorem REVERSE_FLAGS_reads_in_bounds:
  "length REVERSE_FLAGS = 10
   \<and> set (hitung_skor_reads jawaban) \<subseteq> {..<length jawaban}
   \<and> ((\<exists>n. hitung_skor jawaban = Inl (OutOfBounds n))
        \<longleftrightarrow> (\<exists>n\<in>set (hitung_skor_reads jawaban). length REVERSE_FLAGS \<le> n))
   \<and> (length jawaban \<le> 10 \<longrightarrow>
        (\<forall>i\<in>set (hitung_skor_reads jawaban). i < length REVERSE_FLAGS)
        \<and> (\<exists>r. hitung_skor jawaban = Inr r))
   \<and> (length jawaban \<le> 10 \<and> (\<forall>x\<in>set jawaban. 0 \<le> x \<and> x \<le> 3) \<longrightarrow>
        hitung_skor_reads jawaban = [0..<length jawaban])
   \<and> (length argv = 11 \<and> load_args argv 1 [] = Inr jawaban' \<longrightarrow> length jawaban' = 10)
   \<and> (\<exists>out. main argv = Inr out)"
proof (intro conjI impI)
  show "length REVERSE_FLAGS = 10" by (rule length_REVERSE_FLAGS)
next
  from hitung_skor_reads_loop_range [of jawaban 0]
  show "set (hitung_skor_reads jawaban) \<subseteq> {..<length jawaban}"
    by (auto simp: hitung_skor_reads_def)
next
  show "(\<exists>n. hitung_skor jawaban = Inl (OutOfBounds n))
      \<longleftrightarrow> (\<exists>n\<in>set (hitung_skor_reads jawaban). length REVERSE_FLAGS \<le> n)"
    unfolding hitung_skor_def hitung_skor_reads_def
    by (auto simp: hitung_skor_loop_fault_iff)
next
  assume len: "length jawaban \<le> 10"
  from hitung_skor_reads_loop_range [of jawaban 0] len
  show "\<forall>i\<in>set (hitung_skor_reads jawaban). i < length REVERSE_FLAGS"
    by (auto simp: hitung_skor_reads_def length_REVERSE_FLAGS)
next
  assume "length jawaban \<le> 10"
  then have "length jawaban \<le> length REVERSE_FLAGS" by (simp add: length_REVERSE_FLAGS)
  then show "\<exists>r. hitung_skor jawaban = Inr r" by (rule hitung_skor_no_fault)
next
  assume a: "length jawaban \<le> 10 \<and> (\<forall>x\<in>set jawaban. 0 \<le> x \<and> x \<le> 3)"
  then have "length jawaban \<le> length REVERSE_FLAGS" by (simp add: length_REVERSE_FLAGS)
  moreover from a have "\<forall>k. 0 \<le> k \<and> k < length jawaban \<longrightarrow> 0 \<le> jawaban ! k \<and> jawaban ! k \<le> 3"
    by simp
  ultimately show "hitung_skor_reads jawaban = [0..<length jawaban]"
    unfolding hitung_skor_reads_def by (rule hitung_skor_reads_loop_valid)
next
  assume a: "length argv = 11 \<and> load_args argv 1 [] = Inr jawaban'"
  then have "load_args argv 1 [] = Inr jawaban'" by simp
  from load_args_length [OF this] a show "length jawaban' = 10" by simp
next
  show "\<exists>out. main argv = Inr out"
  proof (cases argv rule: main_cases)
    case arity
    from main_arity [OF this] show ?thesis by blast
  next
    case (parse k e)
    from main_parse [OF this] show ?thesis by blast
  next
    case (range pre x post)
    from main_range [OF this] show ?thesis by blast
  next
    case (success ns)
    from main_success [OF this] show ?thesis by blast
  qed
qed

theorem REVERSE_FLAGS_reads_in_bounds_witness:
  "length [0, 1, 2, 3, 0, 1, 2, 3, 0, 1 :: int] \<le> 10
   \<and> set [0, 1, 2, 3, 0, 1, 2, 3, 0, 1 :: int] \<subseteq> {0..3}
   \<and> hitung_skor_reads [0, 1, 2, 3, 0, 1, 2, 3, 0, 1] = [0, 1, 2, 3, 4, 5, 6, 7, 8, 9]
   \<and> set (hitung_skor_reads [0, 1, 2, 3, 0, 1, 2, 3, 0, 1]) \<subseteq> {..<length REVERSE_FLAGS}
   \<and> (\<exists>r. hitung_skor [0, 1, 2, 3, 0, 1, 2, 3, 0, 1] = Inr r)"
proof -
  let ?v = "[0, 1, 2, 3, 0, 1, 2, 3, 0, 1 :: int]"
  have len: "length ?v \<le> 10" by simp
  have ok: "\<forall>x\<in>set ?v. 0 \<le> x \<and> x \<le> 3" by simp
  have sub: "set ?v \<subseteq> {0..3}" by simp
  note C = REVERSE_FLAGS_reads_in_bounds [of ?v]
  from C len ok have "hitung_skor_reads ?v = [0..<length ?v]" by blast
  then have reads: "hitung_skor_reads ?v = [0, 1, 2, 3, 4, 5, 6, 7, 8, 9]"
    by (simp add: upt_conv_Cons)
  from C len have "\<forall>i\<in>set (hitung_skor_reads ?v). i < length REVERSE_FLAGS" by blast
  then have inb: "set (hitung_skor_reads ?v) \<subseteq> {..<length REVERSE_FLAGS}" by blast
  from C len have ret: "\<exists>r. hitung_skor ?v = Inr r" by blast
  from len sub reads inb ret show ?thesis by (intro conjI)
qed

section \<open>The claims about \<open>main\<close>\<close>

text \<open>
  Claim C3. When the number of arguments after the program name is not 10, \<open>main\<close> writes
  the arity message with the number it received to standard error, writes nothing to
  standard output and returns 1.
\<close>

theorem main_arity_error:
  assumes "length args \<noteq> 10"
  shows "main (prog # args) =
    Inr \<lparr>stdout = [],
         stderr = ''C++ ERROR: Harus menerima 10 jawaban sebagai argumen, diterima: ''
           @ show_int (int (length args)) @ ''.'' @ endl,
         exit_code = 1\<rparr>"
proof -
  from assms have "length (prog # args) \<noteq> 11" by simp
  from main_arity [OF this] show ?thesis by simp
qed

theorem main_arity_error_witness:
  "main [''prog'', ''1'', ''2'', ''3'', ''0'', ''1'', ''2'', ''3'', ''0'', ''1''] =
     Inr \<lparr>stdout = [],
          stderr = ''C++ ERROR: Harus menerima 10 jawaban sebagai argumen, diterima: 9.'' @ endl,
          exit_code = 1\<rparr>
   \<and> main [''prog'', ''1'', ''2'', ''3'', ''0'', ''1'', ''2'', ''3'', ''0'', ''1'', ''2'', ''3''] =
     Inr \<lparr>stdout = [],
          stderr = ''C++ ERROR: Harus menerima 10 jawaban sebagai argumen, diterima: 11.'' @ endl,
          exit_code = 1\<rparr>"
  using main_arity_error [of "[''1'', ''2'', ''3'', ''0'', ''1'', ''2'', ''3'', ''0'', ''1'']" "''prog''"]
    main_arity_error [of "[''1'', ''2'', ''3'', ''0'', ''1'', ''2'', ''3'', ''0'', ''1'', ''2'', ''3'']" "''prog''"]
  by (simp add: show_int_def show_nat.simps)

text \<open>
  Claim C4. The claim is that each of the 10 arguments must be a base-10 integer and that
  any other argument ends the run with the parse error of line 47. The code does less:
  line 45 takes what \<open>stoi\<close> makes of the argument and never looks at the characters \<open>stoi\<close>
  left unread. The arguments \<open>3abc\<close>, \<open>3.7\<close> and \<open>1e2\<close> are no integer literals, yet \<open>main\<close>
  counts them as 3, 3 and 1, prints a score and returns 0.
\<close>

theorem main_accepts_non_integer:
  "\<not> spec_integer_literal ''3abc''
   \<and> main [''prog'', ''3abc'', ''0'', ''0'', ''0'', ''0'', ''0'', ''0'', ''0'', ''0'', ''0''] =
       Inr \<lparr>stdout = ''9'' @ endl, stderr = [], exit_code = 0\<rparr>
   \<and> \<not> spec_integer_literal ''3.7'' \<and> \<not> spec_integer_literal ''1e2''
   \<and> main [''prog'', ''3.7'', ''1e2'', ''0'', ''0'', ''0'', ''0'', ''0'', ''0'', ''0'', ''0''] =
       Inr \<lparr>stdout = ''10'' @ endl, stderr = [], exit_code = 0\<rparr>"
proof (intro conjI)
  show "\<not> spec_integer_literal ''3abc''" by (simp add: spec_integer_literal_def)
  show "\<not> spec_integer_literal ''3.7''" by (simp add: spec_integer_literal_def)
  show "\<not> spec_integer_literal ''1e2''" by (simp add: spec_integer_literal_def)
  show "main [''prog'', ''3abc'', ''0'', ''0'', ''0'', ''0'', ''0'', ''0'', ''0'', ''0'', ''0''] =
       Inr \<lparr>stdout = ''9'' @ endl, stderr = [], exit_code = 0\<rparr>"
    by code_simp
  show "main [''prog'', ''3.7'', ''1e2'', ''0'', ''0'', ''0'', ''0'', ''0'', ''0'', ''0'', ''0''] =
       Inr \<lparr>stdout = ''10'' @ endl, stderr = [], exit_code = 0\<rparr>"
    by code_simp
qed

text \<open>
  Claim C2. With exactly 10 arguments that \<open>stoi\<close> all converts, when \<open>x\<close> is the first
  converted value outside \<open>0 .. 3\<close> (the values \<open>pre\<close> before it are inside), \<open>main\<close> writes
  the range message with the decimal form of \<open>x\<close> to standard error, nothing to standard
  output, and returns 1. A vector with some value outside \<open>0 .. 3\<close> always splits this way
  (\<open>split_list_first_prop\<close>).
\<close>

theorem main_out_of_range_error:
  assumes "length args = 10" and "map stoi args = map Inr (pre @ x # post)"
    and "\<forall>y\<in>set pre. 0 \<le> y \<and> y \<le> 3" and "x < 0 \<or> 3 < x"
  shows "main (prog # args) =
    Inr \<lparr>stdout = [],
         stderr = ''C++ ERROR: Nilai jawaban di luar rentang 0-3 terdeteksi: ''
           @ show_int x @ ''.'' @ endl,
         exit_code = 1\<rparr>"
proof -
  have "length (prog # args) = 11" using assms(1) by simp
  moreover have "map stoi (tl (prog # args)) = map Inr (pre @ x # post)" using assms(2) by simp
  ultimately show ?thesis using assms(3,4) by (rule main_range)
qed

theorem main_out_of_range_error_witness:
  "map stoi [''0'', ''1'', ''2'', ''4'', ''0'', ''1'', ''2'', ''3'', ''0'', ''1'']
     = map Inr [0, 1, 2, 4, 0, 1, 2, 3, 0, 1]
   \<and> main [''prog'', ''0'', ''1'', ''2'', ''4'', ''0'', ''1'', ''2'', ''3'', ''0'', ''1''] =
     Inr \<lparr>stdout = [],
          stderr = ''C++ ERROR: Nilai jawaban di luar rentang 0-3 terdeteksi: 4.'' @ endl,
          exit_code = 1\<rparr>"
proof -
  let ?args = "[''0'', ''1'', ''2'', ''4'', ''0'', ''1'', ''2'', ''3'', ''0'', ''1'']"
  have p: "stoi ''0'' = Inr 0" "stoi ''1'' = Inr 1" "stoi ''2'' = Inr 2" "stoi ''3'' = Inr 3"
    "stoi ''4'' = Inr 4"
    by (simp_all add: stoi_def isspace_def isdigit_def digits_value_def)
  have parsed: "map stoi ?args = map Inr ([0, 1, 2] @ 4 # [0, 1, 2, 3, 0, 1])"
    by (simp add: p)
  have len: "length ?args = 10" by simp
  have pre: "\<forall>y\<in>set [0, 1, 2 :: int]. 0 \<le> y \<and> y \<le> 3" by simp
  have x: "(4::int) < 0 \<or> 3 < (4::int)" by simp
  from main_out_of_range_error [OF len parsed pre x, of "''prog''"]
  have "main (''prog'' # ?args) =
     Inr \<lparr>stdout = [],
          stderr = ''C++ ERROR: Nilai jawaban di luar rentang 0-3 terdeteksi: 4.'' @ endl,
          exit_code = 1\<rparr>"
    by (simp add: show_int_def show_nat.simps)
  with parsed show ?thesis by simp
qed

text \<open>
  Claim C6. Every run of \<open>main\<close> ends in one of two ways. Either it returns 0, standard
  error is empty and standard output holds one line, the score \<open>hitung_skor\<close> returns for
  the 10 converted arguments, a value in \<open>0 .. 30\<close>; or it returns 1, standard output is
  empty and the message is on standard error.
\<close>

theorem main_output_discipline:
  "\<exists>out. main argv = Inr out \<and>
     ((exit_code out = 0 \<and> stderr out = [] \<and>
        (\<exists>jawaban s. map stoi (tl argv) = map Inr jawaban \<and> length jawaban = 10 \<and>
           hitung_skor jawaban = Inr s \<and> 0 \<le> s \<and> s \<le> 30 \<and>
           stdout out = show_int s @ endl))
      \<or> (exit_code out = 1 \<and> stdout out = [] \<and> stderr out \<noteq> []))"
proof (cases argv rule: main_cases)
  case arity
  from main_arity [OF this] show ?thesis by simp
next
  case (parse k e)
  from main_parse [OF this] show ?thesis by simp
next
  case (range pre x post)
  from main_range [OF this] show ?thesis by simp
next
  case (success ns)
  from main_success [OF this] obtain s where s: "hitung_skor ns = Inr s" "0 \<le> s" "s \<le> 30"
    "main argv = Inr \<lparr>stdout = show_int s @ endl, stderr = [], exit_code = 0\<rparr>"
    by blast
  from success(2) have "length (tl argv) = length ns" by (metis length_map)
  with success(1) have "length ns = 10" by simp
  with success(2) s(1,2,3)
  have "\<exists>jawaban s'. map stoi (tl argv) = map Inr jawaban \<and> length jawaban = 10 \<and>
           hitung_skor jawaban = Inr s' \<and> 0 \<le> s' \<and> s' \<le> 30 \<and>
           show_int s @ endl = show_int s' @ endl"
    by blast
  with s(4) show ?thesis by simp
qed

theorem main_output_discipline_witness:
  "(\<exists>out. main [''prog'', ''0'', ''1'', ''2'', ''3'', ''0'', ''1'', ''2'', ''3'', ''0'', ''1''] = Inr out
      \<and> exit_code out = 0 \<and> stdout out = ''19'' @ endl \<and> stderr out = [])
   \<and> (\<exists>out. main [''prog'', ''0'', ''1'', ''x''] = Inr out
      \<and> exit_code out = 1 \<and> stdout out = [] \<and> stderr out \<noteq> [])"
proof -
  let ?good = "[''prog'', ''0'', ''1'', ''2'', ''3'', ''0'', ''1'', ''2'', ''3'', ''0'', ''1'']"
  let ?bad = "[''prog'', ''0'', ''1'', ''x'']"
  have g: "main ?good = Inr \<lparr>stdout = ''19'' @ endl, stderr = [], exit_code = 0\<rparr>"
    by code_simp
  from main_output_discipline [of ?good] g
  have 1: "\<exists>out. main ?good = Inr out \<and> exit_code out = 0 \<and> stdout out = ''19'' @ endl
      \<and> stderr out = []"
    by simp
  from main_output_discipline [of ?bad] obtain out where out: "main ?bad = Inr out"
    "(exit_code out = 0 \<and> stderr out = [] \<and>
        (\<exists>jawaban s. map stoi (tl ?bad) = map Inr jawaban \<and> length jawaban = 10 \<and>
           hitung_skor jawaban = Inr s \<and> 0 \<le> s \<and> s \<le> 30 \<and>
           stdout out = show_int s @ endl))
      \<or> (exit_code out = 1 \<and> stdout out = [] \<and> stderr out \<noteq> [])"
    by blast
  have "\<not> (\<exists>jawaban. map stoi (tl ?bad) = map Inr jawaban \<and> length jawaban = 10)"
  proof
    assume "\<exists>jawaban. map stoi (tl ?bad) = map Inr jawaban \<and> length jawaban = 10"
    then obtain jawaban :: "int list" where j: "map stoi (tl ?bad) = map Inr jawaban"
      "length jawaban = 10" by blast
    from j(1) have "length (tl ?bad) = length jawaban" by (metis length_map)
    with j(2) show False by simp
  qed
  with out(2) have "exit_code out = 1 \<and> stdout out = [] \<and> stderr out \<noteq> []" by blast
  with out(1) have 2: "\<exists>out. main ?bad = Inr out \<and> exit_code out = 1 \<and> stdout out = []
      \<and> stderr out \<noteq> []"
    by blast
  from 1 2 show ?thesis by (rule conjI)
qed

text \<open>
  Claim C7. When \<open>hitung_skor\<close> returns \<open>-1\<close> the second scan finds an element outside
  \<open>0 .. 3\<close>, for a vector of 10 elements as for any other, so that no run of \<open>main\<close> ends
  with the message of line 61.
\<close>

theorem internal_error_unreachable:
  "(hitung_skor jawaban = Inr (- 1) \<longrightarrow> (\<exists>v. rescan jawaban = Some v \<and> (v < 0 \<or> 3 < v)))
   \<and> (\<exists>out. main argv = Inr out \<and>
        stderr out \<noteq> ''C++ ERROR: Kesalahan input tidak terduga dalam hitung_skor.'' @ endl)"
proof (intro conjI impI)
  assume "hitung_skor jawaban = Inr (- 1)"
  from hitung_skor_returns [OF this] have "\<exists>x\<in>set jawaban. x < 0 \<or> 3 < x" by simp
  then obtain x where "x \<in> set jawaban" "x < 0 \<or> 3 < x" by blast
  then have "\<not> (\<forall>x\<in>set jawaban. 0 \<le> x \<and> x \<le> 3)" by force
  then have "rescan jawaban \<noteq> None" by (simp add: rescan_None)
  then obtain v where v: "rescan jawaban = Some v" by blast
  from rescan_Some [OF v] v show "\<exists>v. rescan jawaban = Some v \<and> (v < 0 \<or> 3 < v)" by blast
next
  show "\<exists>out. main argv = Inr out \<and>
        stderr out \<noteq> ''C++ ERROR: Kesalahan input tidak terduga dalam hitung_skor.'' @ endl"
  proof (cases argv rule: main_cases)
    case arity
    from main_arity [OF this] show ?thesis by simp
  next
    case (parse k e)
    from main_parse [OF this] show ?thesis by simp
  next
    case (range pre x post)
    from main_range [OF this] show ?thesis by simp
  next
    case (success ns)
    from main_success [OF this] obtain s where
      "main argv = Inr \<lparr>stdout = show_int s @ endl, stderr = [], exit_code = 0\<rparr>"
      by blast
    then show ?thesis by simp
  qed
qed

theorem internal_error_unreachable_witness:
  "hitung_skor [0, 1, 2, 3, 0, 7, 2, - 3, 0, 1] = Inr (- 1)
   \<and> rescan [0, 1, 2, 3, 0, 7, 2, - 3, 0, 1] = Some 7
   \<and> (\<exists>out. main [''prog'', ''0'', ''1'', ''2'', ''3'', ''0'', ''7'', ''2'', ''-3'', ''0'', ''1''] = Inr out
        \<and> stderr out = ''C++ ERROR: Nilai jawaban di luar rentang 0-3 terdeteksi: 7.'' @ endl)"
proof -
  let ?v = "[0, 1, 2, 3, 0, 7, 2, - 3, 0, 1 :: int]"
  let ?argv = "[''prog'', ''0'', ''1'', ''2'', ''3'', ''0'', ''7'', ''2'', ''-3'', ''0'', ''1'']"
  note C = internal_error_unreachable [of ?v ?argv]
  have h: "hitung_skor ?v = Inr (- 1)" by code_simp
  with C obtain v where v: "rescan ?v = Some v" "v < 0 \<or> 3 < v" by blast
  have r: "rescan ?v = Some 7" by simp
  have m: "main ?argv = Inr \<lparr>stdout = [],
      stderr = ''C++ ERROR: Nilai jawaban di luar rentang 0-3 terdeteksi: 7.'' @ endl,
      exit_code = 1\<rparr>"
    by code_simp
  from C obtain out where "main ?argv = Inr out" by blast
  with m have "\<exists>out. main ?argv = Inr out
      \<and> stderr out = ''C++ ERROR: Nilai jawaban di luar rentang 0-3 terdeteksi: 7.'' @ endl"
    by simp
  with h r show ?thesis by (intro conjI)
qed

end
